theory Spec2Isabelle
  imports Main
begin

section \<open>The chebyshev module, embedded\<close>

text \<open>
  The module \<^verbatim>\<open>chebyshev.py\<close> holds five pure functions over Python lists of numbers.
  A polynomial is the list of its coefficients, constant term first. Python decides the
  arithmetic by the arguments it is given, and the module is embedded twice:
  \<^item> on scalars with exact arithmetic, the elements of a commutative ring with unit: Python's
    unbounded integers are the instance \<^typ>\<open>int\<close>, and every \<open>+\<close>, \<open>-\<close> and \<open>*\<close> of the
    source is the exact operation;
  \<^item> on \<^verbatim>\<open>float\<close> arguments (the functions named \<open>_f64\<close> below), where every \<open>+\<close>
    and \<open>*\<close> of the source rounds its result to the nearest binary64 number.

  The exceptions the module can raise on well-typed arguments are the failed
  \<^verbatim>\<open>assert\<close> of \<^verbatim>\<open>linear_combination\<close> and the out-of-range subscript
  \<^verbatim>\<open>coefficients[0]\<close> of \<^verbatim>\<open>clenshaw_eval\<close>.
\<close>

datatype error = AssertionError | IndexError

subsection \<open>Library functions used by the module\<close>

text \<open>
  The builtin \<^verbatim>\<open>sum\<close> starts from \<open>0\<close> and adds the elements from left to right.
\<close>

definition py_sum :: "'a::comm_ring_1 list \<Rightarrow> 'a" where
  "py_sum xs = foldl (+) 0 xs"

text \<open>
  \<^verbatim>\<open>itertools.zip_longest(*iterables, fillvalue=v)\<close>: each round takes the next
  element of every iterable, an exhausted one giving \<open>v\<close>; it stops before the round
  in which all of them are exhausted, and yields nothing for no iterables at all.
\<close>

function zip_longest :: "'a \<Rightarrow> 'a list list \<Rightarrow> 'a list list" where
  "zip_longest fillvalue iterables =
     (if list_all (\<lambda>it. it = []) iterables then []
      else map (\<lambda>it. case it of [] \<Rightarrow> fillvalue | v # _ \<Rightarrow> v) iterables
             # zip_longest fillvalue (map tl iterables))"
  by pat_completeness auto

lemma sum_list_length_tl_le:
  "(\<Sum>it\<leftarrow>its. length (tl it)) \<le> (\<Sum>it\<leftarrow>its. length it)"
  by (induction its) (simp_all add: add_mono)

lemma sum_list_length_tl_less:
  "\<not> list_all (\<lambda>it. it = []) its \<Longrightarrow>
     (\<Sum>it\<leftarrow>its. length (tl it)) < (\<Sum>it\<leftarrow>its. length it)"
proof (induction its)
  case Nil
  then show ?case by simp
next
  case (Cons a its)
  show ?case
  proof (cases a)
    case Nil
    with Cons show ?thesis by simp
  next
    case (Cons x xs)
    have "length (tl a) < length a"
      using Cons by simp
    with sum_list_length_tl_le [of its] show ?thesis
      by simp
  qed
qed

termination zip_longest
proof (relation "measure (\<lambda>(f, its). \<Sum>it\<leftarrow>its. length it)")
  show "wf (measure (\<lambda>(f, its). \<Sum>it\<leftarrow>its. length it))"
    by simp
next
  fix fillvalue :: 'a and iterables :: "'a list list"
  assume "\<not> list_all (\<lambda>it. it = []) iterables"
  then have "(\<Sum>it\<leftarrow>iterables. length (tl it)) < (\<Sum>it\<leftarrow>iterables. length it)"
    by (rule sum_list_length_tl_less)
  then show "((fillvalue, map tl iterables), (fillvalue, iterables))
               \<in> measure (\<lambda>(f, its). \<Sum>it\<leftarrow>its. length it)"
    by (simp add: comp_def)
qed

declare zip_longest.simps [simp del]

text \<open>The same function called with two iterables, yielding pairs.\<close>

fun zip_longest2 :: "'a \<Rightarrow> 'a list \<Rightarrow> 'a list \<Rightarrow> ('a \<times> 'a) list" where
  "zip_longest2 fillvalue [] [] = []"
| "zip_longest2 fillvalue (x # xs) [] = (x, fillvalue) # zip_longest2 fillvalue xs []"
| "zip_longest2 fillvalue [] (y # ys) = (fillvalue, y) # zip_longest2 fillvalue [] ys"
| "zip_longest2 fillvalue (x # xs) (y # ys) = (x, y) # zip_longest2 fillvalue xs ys"

subsection \<open>linear\_combination\<close>

text \<open>
  \<^verbatim>\<open>
  def linear_combination(polys, weights):
    assert len(weights) == len(polys)
    return [
        sum([c * x for (c, x) in zip(weights, coeffs)])
        for coeffs in zip_longest(*polys, fillvalue=0)
    ]
  \<close>
\<close>

definition linear_combination ::
  "'a::comm_ring_1 list list \<Rightarrow> 'a list \<Rightarrow> error + 'a list" where
  "linear_combination polys weights =
     (if length weights \<noteq> length polys then Inl AssertionError
      else Inr (map (\<lambda>coeffs. py_sum (map (\<lambda>(c, x). c * x) (zip weights coeffs)))
                    (zip_longest 0 polys)))"

subsection \<open>generate\_chebyshev\_polynomials\<close>

text \<open>
  \<^verbatim>\<open>
  def generate_chebyshev_polynomials(count):
    if count < 1:
      return []
    polynomials = [[1], [0, 2]]
    if count <= 2:
      return polynomials[:count]
    for i in range(2, count):
      x_k_minus_1 = [0] + polynomials[-1]
      k_minus_2 = polynomials[-2]
      next_polynomial = [
          2 * x - y for (x, y) in zip_longest(x_k_minus_1, k_minus_2, fillvalue=0)
      ]
      polynomials.append(next_polynomial)
    return polynomials
  \<close>
  The body of the loop is \<open>next_polynomial\<close>; the subscripts \<open>-1\<close> and \<open>-2\<close> count
  from the end of the list, which has at least two elements whenever the loop runs
  (lemma \<open>chebyshev_loop_subscripts_in_range\<close> below). The loop variable runs over
  \<^verbatim>\<open>range(2, count)\<close>, the integers from \<open>2\<close> to \<open>count - 1\<close>.
\<close>

definition next_polynomial :: "'a::comm_ring_1 list list \<Rightarrow> 'a list" where
  "next_polynomial polynomials =
     (let x_k_minus_1 = [0] @ polynomials ! (length polynomials - 1);
          k_minus_2 = polynomials ! (length polynomials - 2)
      in map (\<lambda>(x, y). 2 * x - y) (zip_longest2 0 x_k_minus_1 k_minus_2))"

definition chebyshev_loop :: "'a::comm_ring_1 list list \<Rightarrow> int list \<Rightarrow> 'a list list" where
  "chebyshev_loop polynomials is =
     foldl (\<lambda>polynomials i. polynomials @ [next_polynomial polynomials]) polynomials is"

definition generate_chebyshev_polynomials :: "int \<Rightarrow> 'a::comm_ring_1 list list" where
  "generate_chebyshev_polynomials count =
     (if count < 1 then []
      else let polynomials = [[1], [0, 2]]
           in if count \<le> 2 then take (nat count) polynomials
              else chebyshev_loop polynomials [2..count - 1])"

subsection \<open>poly\_eval\<close>

text \<open>
  \<^verbatim>\<open>
  def poly_eval(poly, x):
    acc = 0
    for c in reversed(poly):
      acc = acc * x + c
    return acc
  \<close>
\<close>

definition poly_eval :: "'a::comm_ring_1 list \<Rightarrow> 'a \<Rightarrow> 'a" where
  "poly_eval poly x = foldl (\<lambda>acc c. acc * x + c) 0 (rev poly)"

subsection \<open>clenshaw\_eval and cheb\_eval\<close>

text \<open>
  \<^verbatim>\<open>
  def clenshaw_eval(coefficients, value, basis_0, basis_1, alpha, beta):
    alpha_x = poly_eval(alpha, value)
    beta_x = poly_eval(beta, value)
    basis_0_x = poly_eval(basis_0, value)
    basis_1_x = poly_eval(basis_1, value)
    b = (0, 0)
    for c in reversed(coefficients[1:]):
      b_k = c + alpha_x * b[0] + beta_x * b[1]
      b = (b_k, b[0])
    return (
        basis_0_x * coefficients[0] + basis_1_x * b[0] + beta_x * basis_0_x * b[1]
    )
  \<close>
  The slice \<^verbatim>\<open>coefficients[1:]\<close> of an empty list is empty, so the loop never
  fails; the subscript \<^verbatim>\<open>coefficients[0]\<close> of the return statement raises
  \<^verbatim>\<open>IndexError\<close> on an empty list.
\<close>

definition clenshaw_step :: "'a::comm_ring_1 \<Rightarrow> 'a \<Rightarrow> 'a \<times> 'a \<Rightarrow> 'a \<Rightarrow> 'a \<times> 'a" where
  "clenshaw_step alpha_x beta_x b c =
     (let b_k = c + alpha_x * fst b + beta_x * snd b in (b_k, fst b))"

definition clenshaw_eval ::
  "'a::comm_ring_1 list \<Rightarrow> 'a \<Rightarrow> 'a list \<Rightarrow> 'a list \<Rightarrow> 'a list \<Rightarrow> 'a list \<Rightarrow> error + 'a" where
  "clenshaw_eval coefficients val basis_0 basis_1 alpha beta =
     (let alpha_x = poly_eval alpha val;
          beta_x = poly_eval beta val;
          basis_0_x = poly_eval basis_0 val;
          basis_1_x = poly_eval basis_1 val;
          b = foldl (clenshaw_step alpha_x beta_x) (0, 0) (rev (drop 1 coefficients))
      in case coefficients of
           [] \<Rightarrow> Inl IndexError
         | c_0 # _ \<Rightarrow>
             Inr (basis_0_x * c_0 + basis_1_x * fst b + beta_x * basis_0_x * snd b))"

text \<open>
  \<^verbatim>\<open>
  def cheb_eval(coefficients, x):
    basis = generate_chebyshev_polynomials(count=2)
    alpha = [0, 2]  # alpha(x) = 2x
    beta = [-1]  # beta(x) = -1
    return clenshaw_eval(coefficients, x, basis[0], basis[1], alpha, beta)
  \<close>
\<close>

definition cheb_eval :: "'a::comm_ring_1 list \<Rightarrow> 'a \<Rightarrow> error + 'a" where
  "cheb_eval coefficients x =
     (let basis = generate_chebyshev_polynomials 2;
          alpha = [0, 2];
          beta = [- 1]
      in clenshaw_eval coefficients x (basis ! 0) (basis ! 1) alpha beta)"

subsection \<open>Float arguments: binary64 arithmetic\<close>

text \<open>
  A Python \<^verbatim>\<open>float\<close> is an IEEE 754 binary64 number. \<open>Finite m e\<close> stands for the
  number \<open>m * 2 ^ e\<close>, kept with \<open>m\<close> odd, or with \<open>m = 0\<close> and \<open>e = 0\<close> for zero (the
  sign of a zero is not kept: no \<open>+\<close>, \<open>-\<close>, \<open>*\<close> or \<open>==\<close> tells the two zeros apart);
  \<open>Infinity s\<close> is the infinity of negative sign when \<open>s\<close> holds, and \<open>NaN\<close> is not a
  number.
\<close>

datatype binary64 = Finite int int | Infinity bool | NaN

text \<open>The number of binary digits of the magnitude of an integer.\<close>

function bit_length :: "int \<Rightarrow> nat" where
  "bit_length n = (if n = 0 then 0 else Suc (bit_length (\<bar>n\<bar> div 2)))"
  by pat_completeness auto
termination
  by (relation "measure (\<lambda>n. nat \<bar>n\<bar>)") auto

declare bit_length.simps [simp del]

text \<open>
  \<open>m / 2 ^ s\<close> rounded to the nearest integer, a tie going to the even one.
\<close>

definition round_half_even :: "int \<Rightarrow> nat \<Rightarrow> int" where
  "round_half_even m s =
     (if s = 0 then m
      else let q = m div 2 ^ s; r = m mod 2 ^ s; h = 2 ^ (s - 1)
           in if r < h then q else if h < r then q + 1 else if even q then q else q + 1)"

text \<open>The number \<open>m * 2 ^ e\<close> with the factors of two moved out of \<open>m\<close>.\<close>

function normal :: "int \<Rightarrow> int \<Rightarrow> binary64" where
  "normal m e =
     (if m = 0 then Finite 0 0
      else if even m then normal (m div 2) (e + 1)
      else Finite m e)"
  by pat_completeness auto
termination
  by (relation "measure (\<lambda>(m, e). nat \<bar>m\<bar>)") auto

declare normal.simps [simp del]

text \<open>
  The binary64 number nearest to the exact number \<open>m * 2 ^ e\<close>, ties to even: the
  significand keeps 53 binary digits and no digit below \<open>2 ^ - 1074\<close>, and a result of
  magnitude \<open>2 ^ 1024\<close> or more is an infinity.
\<close>

definition f64_round :: "int \<Rightarrow> int \<Rightarrow> binary64" where
  "f64_round m e =
     (let shift = nat (max (int (bit_length m) - 53) (- 1074 - e));
          m' = round_half_even m shift;
          e' = e + int shift
      in if 1024 < int (bit_length m') + e' then Infinity (m < 0) else normal m' e')"

text \<open>
  An \<^verbatim>\<open>int\<close> operand of an operation with a \<^verbatim>\<open>float\<close> is converted first, to
  the nearest binary64 number. (Python raises \<^verbatim>\<open>OverflowError\<close> for an integer beyond
  the binary64 range, where this conversion gives an infinity; the integers converted
  below are the literals \<open>0\<close>, \<open>1\<close>, \<open>2\<close> and \<open>-1\<close> of the source and the generated
  coefficients, which convert exactly.)
\<close>

definition f64_of_int :: "int \<Rightarrow> binary64" where
  "f64_of_int n = f64_round n 0"

text \<open>
  The operations \<open>-x\<close>, \<open>x + y\<close>, \<open>x - y\<close> and \<open>x * y\<close> on floats: the exact result,
  rounded.
\<close>

fun f64_neg :: "binary64 \<Rightarrow> binary64" where
  "f64_neg (Finite m e) = Finite (- m) e"
| "f64_neg (Infinity s) = Infinity (\<not> s)"
| "f64_neg NaN = NaN"

fun f64_add :: "binary64 \<Rightarrow> binary64 \<Rightarrow> binary64" where
  "f64_add NaN y = NaN"
| "f64_add x NaN = NaN"
| "f64_add (Infinity s) (Infinity t) = (if s = t then Infinity s else NaN)"
| "f64_add (Infinity s) (Finite m e) = Infinity s"
| "f64_add (Finite m e) (Infinity t) = Infinity t"
| "f64_add (Finite m1 e1) (Finite m2 e2) =
     (let e = min e1 e2
      in f64_round (m1 * 2 ^ nat (e1 - e) + m2 * 2 ^ nat (e2 - e)) e)"

definition f64_sub :: "binary64 \<Rightarrow> binary64 \<Rightarrow> binary64" where
  "f64_sub x y = f64_add x (f64_neg y)"

fun f64_mul :: "binary64 \<Rightarrow> binary64 \<Rightarrow> binary64" where
  "f64_mul NaN y = NaN"
| "f64_mul x NaN = NaN"
| "f64_mul (Infinity s) (Infinity t) = Infinity (s \<noteq> t)"
| "f64_mul (Infinity s) (Finite m e) = (if m = 0 then NaN else Infinity (s \<noteq> (m < 0)))"
| "f64_mul (Finite m e) (Infinity t) = (if m = 0 then NaN else Infinity ((m < 0) \<noteq> t))"
| "f64_mul (Finite m1 e1) (Finite m2 e2) = f64_round (m1 * m2) (e1 + e2)"

subsection \<open>The module on float arguments\<close>

text \<open>
  The same five functions with every operation on scalars a binary64 operation, in the
  order Python evaluates it: \<open>x + y + z\<close> is \<open>(x + y) + z\<close> and \<open>x * y * z\<close> is
  \<open>(x * y) * z\<close>. The generator takes no scalar argument and computes on integers
  whatever the other arguments are.
\<close>

definition poly_eval_f64 :: "binary64 list \<Rightarrow> binary64 \<Rightarrow> binary64" where
  "poly_eval_f64 poly x =
     foldl (\<lambda>acc c. f64_add (f64_mul acc x) c) (f64_of_int 0) (rev poly)"

definition py_sum_f64 :: "binary64 list \<Rightarrow> binary64" where
  "py_sum_f64 xs = foldl f64_add (f64_of_int 0) xs"

definition linear_combination_f64 ::
  "binary64 list list \<Rightarrow> binary64 list \<Rightarrow> error + binary64 list" where
  "linear_combination_f64 polys weights =
     (if length weights \<noteq> length polys then Inl AssertionError
      else Inr (map (\<lambda>coeffs. py_sum_f64 (map (\<lambda>(c, x). f64_mul c x) (zip weights coeffs)))
                    (zip_longest (f64_of_int 0) polys)))"

definition clenshaw_step_f64 ::
  "binary64 \<Rightarrow> binary64 \<Rightarrow> binary64 \<times> binary64 \<Rightarrow> binary64 \<Rightarrow> binary64 \<times> binary64" where
  "clenshaw_step_f64 alpha_x beta_x b c =
     (let b_k = f64_add (f64_add c (f64_mul alpha_x (fst b))) (f64_mul beta_x (snd b))
      in (b_k, fst b))"

definition clenshaw_eval_f64 ::
  "binary64 list \<Rightarrow> binary64 \<Rightarrow> binary64 list \<Rightarrow> binary64 list \<Rightarrow> binary64 list \<Rightarrow>
     binary64 list \<Rightarrow> error + binary64" where
  "clenshaw_eval_f64 coefficients val basis_0 basis_1 alpha beta =
     (let alpha_x = poly_eval_f64 alpha val;
          beta_x = poly_eval_f64 beta val;
          basis_0_x = poly_eval_f64 basis_0 val;
          basis_1_x = poly_eval_f64 basis_1 val;
          b = foldl (clenshaw_step_f64 alpha_x beta_x) (f64_of_int 0, f64_of_int 0)
                (rev (drop 1 coefficients))
      in case coefficients of
           [] \<Rightarrow> Inl IndexError
         | c_0 # _ \<Rightarrow>
             Inr (f64_add (f64_add (f64_mul basis_0_x c_0) (f64_mul basis_1_x (fst b)))
                    (f64_mul (f64_mul beta_x basis_0_x) (snd b))))"

definition cheb_eval_f64 :: "binary64 list \<Rightarrow> binary64 \<Rightarrow> error + binary64" where
  "cheb_eval_f64 coefficients x =
     (let basis = map (map f64_of_int) (generate_chebyshev_polynomials 2);
          alpha = map f64_of_int [0, 2];
          beta = map f64_of_int [- 1]
      in clenshaw_eval_f64 coefficients x (basis ! 0) (basis ! 1) alpha beta)"

section \<open>Notions used to state the properties\<close>

text \<open>
  The value at a point of the \<open>k\<close>-th member of the basis family that a recurrence
  descriptor stands for: \<open>T\<^sub>0\<close> and \<open>T\<^sub>1\<close> are given, and
  \<open>T\<^sub>k = alpha * T\<^sub>k\<^sub>-\<^sub>1 + beta * T\<^sub>k\<^sub>-\<^sub>2\<close> from \<open>k = 2\<close> on.
\<close>

fun basis_value :: "'a::comm_ring_1 \<Rightarrow> 'a \<Rightarrow> 'a \<Rightarrow> 'a \<Rightarrow> nat \<Rightarrow> 'a" where
  "basis_value alpha_x beta_x t0 t1 0 = t0"
| "basis_value alpha_x beta_x t0 t1 (Suc 0) = t1"
| "basis_value alpha_x beta_x t0 t1 (Suc (Suc k)) =
     alpha_x * basis_value alpha_x beta_x t0 t1 (Suc k)
       + beta_x * basis_value alpha_x beta_x t0 t1 k"

text \<open>
  The same values, and the sum of \<open>c\<^sub>k * T\<^sub>k(x)\<close> formed term by term from the left,
  in binary64 arithmetic.
\<close>

fun basis_value_f64 ::
  "binary64 \<Rightarrow> binary64 \<Rightarrow> binary64 \<Rightarrow> binary64 \<Rightarrow> nat \<Rightarrow> binary64" where
  "basis_value_f64 alpha_x beta_x t0 t1 0 = t0"
| "basis_value_f64 alpha_x beta_x t0 t1 (Suc 0) = t1"
| "basis_value_f64 alpha_x beta_x t0 t1 (Suc (Suc k)) =
     f64_add (f64_mul alpha_x (basis_value_f64 alpha_x beta_x t0 t1 (Suc k)))
       (f64_mul beta_x (basis_value_f64 alpha_x beta_x t0 t1 k))"

definition series_sum_f64 ::
  "binary64 list \<Rightarrow> binary64 \<Rightarrow> binary64 \<Rightarrow> binary64 \<Rightarrow> binary64 \<Rightarrow> binary64" where
  "series_sum_f64 coefficients alpha_x beta_x t0 t1 =
     foldl f64_add (f64_of_int 0)
       (map (\<lambda>k. f64_mul (coefficients ! k) (basis_value_f64 alpha_x beta_x t0 t1 k))
          [0..<length coefficients])"

text \<open>
  The power \<^verbatim>\<open>x ** i\<close> of a float by a non-negative integer, taken as the exact
  power correctly rounded, and the naive sum of \<open>P[i] * x ** i\<close> formed term by term from
  the left. (Python raises \<^verbatim>\<open>OverflowError\<close> where a power of a finite number
  overflows; here it is an infinity. No power overflows where the sum is evaluated
  below.)
\<close>

fun f64_pow :: "binary64 \<Rightarrow> nat \<Rightarrow> binary64" where
  "f64_pow (Finite m e) i = f64_round (m ^ i) (e * int i)"
| "f64_pow (Infinity s) i = (if i = 0 then Finite 1 0 else Infinity (s \<and> odd i))"
| "f64_pow NaN i = (if i = 0 then Finite 1 0 else NaN)"

definition naive_sum_f64 :: "binary64 list \<Rightarrow> binary64 \<Rightarrow> binary64" where
  "naive_sum_f64 poly x =
     foldl f64_add (f64_of_int 0)
       (map (\<lambda>i. f64_mul (poly ! i) (f64_pow x i)) [0..<length poly])"


text \<open>
  The coefficient of a polynomial at a degree, \<open>0\<close> beyond the end of its list.
\<close>

definition coeff :: "'a::comm_ring_1 list \<Rightarrow> nat \<Rightarrow> 'a" where
  "coeff poly j = (if j < length poly then poly ! j else 0)"

text \<open>The length of the longest of several lists, \<open>0\<close> for none.\<close>

definition longest :: "'a list list \<Rightarrow> nat" where
  "longest iterables = foldr (\<lambda>it n. max (length it) n) iterables 0"

section \<open>Binary64 arithmetic at the edges of its range\<close>

text \<open>
  The smallest subnormal doubled, halved (a tie, to the even zero) and its triple halved
  (a tie, to the even \<open>2 * 2 ^ - 1074\<close>); the largest finite number plus half a unit in its
  last place (an infinity) and plus a quarter (unchanged); two integers above \<open>2 ^ 53\<close>
  converted, both ties.
\<close>

lemma binary64_examples:
  "f64_add (Finite 1 (- 1074)) (Finite 1 (- 1074)) = Finite 1 (- 1073)"
  "f64_mul (Finite 1 (- 1074)) (Finite 1 (- 1)) = Finite 0 0"
  "f64_mul (Finite 3 (- 1074)) (Finite 1 (- 1)) = Finite 1 (- 1073)"
  "f64_add (Finite 9007199254740991 971) (Finite 1 970) = Infinity False"
  "f64_add (Finite 9007199254740991 971) (Finite 1 969) = Finite 9007199254740991 971"
  "f64_of_int 9007199254740993 = Finite 1 53"
  "f64_of_int 9007199254740995 = Finite 2251799813685249 2"
  by code_simp+

text \<open>
  Where no operation rounds, the float functions return what the exact ones do.
\<close>

lemma poly_eval_f64_example:
  "poly_eval_f64 (map f64_of_int [1, 2, 3, 4]) (f64_of_int 3) = f64_of_int 142"
  by code_simp

section \<open>Horner evaluation\<close>

lemma poly_eval_Nil: "poly_eval [] x = 0"
  by (simp add: poly_eval_def)

lemma poly_eval_foldr: "poly_eval poly x = foldr (\<lambda>c acc. acc * x + c) poly 0"
  by (simp add: poly_eval_def foldr_conv_foldl)

lemma poly_eval_Cons: "poly_eval (c # cs) x = c + x * poly_eval cs x"
  by (simp add: poly_eval_foldr mult.commute add.commute)

lemma sum_nth_Cons:
  "(\<Sum>k<length (c # cs). (c # cs) ! k * f k) =
     c * f 0 + (\<Sum>k<length cs. cs ! k * f (Suc k) :: 'a::comm_ring_1)"
  by (simp del: sum.lessThan_Suc add: sum.lessThan_Suc_shift)

lemma poly_eval_sum: "poly_eval poly x = (\<Sum>i<length poly. poly ! i * x ^ i)"
proof (induction poly)
  case Nil
  show ?case by (simp add: poly_eval_Nil)
next
  case (Cons c cs)
  have "(\<Sum>i<length (c # cs). (c # cs) ! i * x ^ i)
          = c + (\<Sum>i<length cs. cs ! i * x ^ Suc i)"
    by (simp only: sum_nth_Cons) simp
  also have "(\<Sum>i<length cs. cs ! i * x ^ Suc i) = x * (\<Sum>i<length cs. cs ! i * x ^ i)"
    by (simp add: sum_distrib_left mult.assoc mult.left_commute)
  finally show ?case
    using Cons.IH by (simp add: poly_eval_Cons)
qed

section \<open>The builtin sum\<close>

lemma foldl_plus_sum_list: "foldl (+) a xs = (a::'a::comm_ring_1) + sum_list xs"
  by (induction xs arbitrary: a) (simp_all add: add.assoc)

lemma py_sum_sum_list: "py_sum xs = sum_list xs"
  by (simp add: py_sum_def foldl_plus_sum_list)

section \<open>The Clenshaw recurrence\<close>

lemma basis_value_shift:
  "basis_value a b u v (Suc k) = basis_value a b v (a * v + b * u) k"
  by (induction a b u v k rule: basis_value.induct) simp_all

lemma clenshaw_pair_Cons:
  "foldl (clenshaw_step a b) (0, 0) (rev (c # cs)) =
     (let p = foldl (clenshaw_step a b) (0, 0) (rev cs)
      in (c + a * fst p + b * snd p, fst p))"
  by (simp add: clenshaw_step_def Let_def)

lemma clenshaw_sum:
  "(\<Sum>k<length cs. cs ! k * basis_value a b u v k) =
     u * fst (foldl (clenshaw_step a b) (0, 0) (rev cs))
       + (v - a * u) * snd (foldl (clenshaw_step a b) (0, 0) (rev cs))"
proof (induction cs arbitrary: u v)
  case Nil
  show ?case by simp
next
  case (Cons c cs)
  let ?p = "foldl (clenshaw_step a b) (0, 0) (rev cs)"
  have "(\<Sum>k<length (c # cs). (c # cs) ! k * basis_value a b u v k)
          = c * u + (\<Sum>k<length cs. cs ! k * basis_value a b v (a * v + b * u) k)"
    by (simp only: sum_nth_Cons basis_value_shift basis_value.simps)
  also have "\<dots> = c * u + (v * fst ?p + (a * v + b * u - a * v) * snd ?p)"
    by (simp only: Cons.IH)
  also have "\<dots> = u * (c + a * fst ?p + b * snd ?p) + (v - a * u) * fst ?p"
    by (simp add: algebra_simps)
  finally show ?case
    by (simp only: clenshaw_pair_Cons Let_def fst_conv snd_conv)
qed

lemma clenshaw_eval_Cons:
  "clenshaw_eval (c # cs) x basis_0 basis_1 alpha beta =
     Inr (\<Sum>k<length (c # cs). (c # cs) ! k *
            basis_value (poly_eval alpha x) (poly_eval beta x)
              (poly_eval basis_0 x) (poly_eval basis_1 x) k)"
proof -
  let ?a = "poly_eval alpha x" and ?b = "poly_eval beta x"
  let ?t0 = "poly_eval basis_0 x" and ?t1 = "poly_eval basis_1 x"
  let ?p = "foldl (clenshaw_step ?a ?b) (0, 0) (rev cs)"
  have "(\<Sum>k<length (c # cs). (c # cs) ! k * basis_value ?a ?b ?t0 ?t1 k)
          = c * ?t0 + (\<Sum>k<length cs. cs ! k * basis_value ?a ?b ?t1 (?a * ?t1 + ?b * ?t0) k)"
    by (simp only: sum_nth_Cons basis_value_shift basis_value.simps)
  also have "\<dots> = c * ?t0 + (?t1 * fst ?p + (?a * ?t1 + ?b * ?t0 - ?a * ?t1) * snd ?p)"
    by (simp only: clenshaw_sum)
  also have "\<dots> = ?t0 * c + ?t1 * fst ?p + ?b * ?t0 * snd ?p"
    by (simp add: algebra_simps)
  finally show ?thesis
    by (simp add: clenshaw_eval_def Let_def)
qed


text \<open>
  C1 says that for every non-empty coefficient list, every scalar \<open>x\<close> and every
  recurrence descriptor \<open>clenshaw_eval\<close> returns the sum of \<open>c\<^sub>k * T\<^sub>k(x)\<close>. On float
  arguments it does not: for the coefficients \<open>[1.0, 2.0, 3.0]\<close> at \<open>x = 94906267.0\<close>
  with the descriptor \<open>[1]\<close>, \<open>[0, 2]\<close>, \<open>[0, 2]\<close>, \<open>[-1]\<close> the function returns
  \<open>3377699830316517 * 2 ^ 5 = 108086394570128544\<close>, and the sum of the three terms,
  each \<open>T\<^sub>k(x)\<close> obtained from the recurrence, is
  \<open>6755399660633033 * 2 ^ 4 = 108086394570128528\<close>.
\<close>

theorem clenshaw_eval_float_counterexample:
  "clenshaw_eval_f64 (map f64_of_int [1, 2, 3]) (f64_of_int 94906267)
     (map f64_of_int [1]) (map f64_of_int [0, 2]) (map f64_of_int [0, 2]) (map f64_of_int [- 1]) =
     Inr (Finite 3377699830316517 5) \<and>
   series_sum_f64 (map f64_of_int [1, 2, 3])
     (poly_eval_f64 (map f64_of_int [0, 2]) (f64_of_int 94906267))
     (poly_eval_f64 (map f64_of_int [- 1]) (f64_of_int 94906267))
     (poly_eval_f64 (map f64_of_int [1]) (f64_of_int 94906267))
     (poly_eval_f64 (map f64_of_int [0, 2]) (f64_of_int 94906267)) =
     Finite 6755399660633033 4"
  by code_simp

text \<open>
  C1, amended. For every non-empty coefficient list \<open>c\<^sub>0 .. c\<^sub>n\<^sub>-\<^sub>1\<close>, every point and every
  recurrence descriptor, all of Python integers (scalars of exact arithmetic),
  \<open>clenshaw_eval\<close> returns the sum of \<open>c\<^sub>k * T\<^sub>k(x)\<close> over \<open>k < n\<close>, where \<open>T\<^sub>0(x)\<close> and
  \<open>T\<^sub>1(x)\<close> are the values of \<open>basis_0\<close> and \<open>basis_1\<close> and \<open>T\<^sub>k(x)\<close> follows the
  recurrence with the values of \<open>alpha\<close> and \<open>beta\<close> from \<open>k = 2\<close> on.
\<close>

theorem clenshaw_eval_series:
  assumes "coefficients \<noteq> []"
  shows "clenshaw_eval coefficients x basis_0 basis_1 alpha beta =
           Inr (\<Sum>k<length coefficients. coefficients ! k *
                  basis_value (poly_eval alpha x) (poly_eval beta x)
                    (poly_eval basis_0 x) (poly_eval basis_1 x) k)"
proof -
  from assms obtain c cs where "coefficients = c # cs"
    by (cases coefficients) auto
  then show ?thesis
    by (simp only: clenshaw_eval_Cons)
qed

theorem clenshaw_eval_series_witness:
  "[1, 2, 3 :: int] \<noteq> [] \<and> clenshaw_eval [1, 2, 3] (4 :: int) [1] [0, 2] [0, 2] [- 1] = Inr 206"
proof -
  have ne: "[1, 2, 3 :: int] \<noteq> []"
    by simp
  have "(\<Sum>k<length [1, 2, 3 :: int]. [1, 2, 3] ! k *
          basis_value (poly_eval [0, 2] 4) (poly_eval [- 1] 4)
            (poly_eval [1] 4) (poly_eval [0, 2] 4) k) = (206 :: int)"
    by (simp add: poly_eval_def lessThan_Suc)
  with clenshaw_eval_series [OF ne, of 4 "[1]" "[0, 2]" "[0, 2]" "[- 1]"] ne
  show ?thesis
    by simp
qed



text \<open>
  C8 says that for every non-empty polynomial \<open>P\<close> and every scalar \<open>x\<close>,
  \<open>poly_eval P x\<close> is the naive sum of \<open>P[i] * x ** i\<close>. On a float \<open>x\<close> it is not: for
  \<open>P = [1, 2, 3, 4]\<close> at \<open>x = 1234567.0\<close> Horner's loop returns
  \<open>1837571724031189 * 2 ^ 12 = 7526693781631750144\<close> and the naive sum is
  \<open>7350286896124757 * 2 ^ 10 = 7526693781631751168\<close>. (The exact value is
  \<open>7526693781631750654\<close>. The powers \<open>x ** 0\<close>, \<open>x ** 1\<close> and \<open>x ** 2\<close> are exact here,
  and \<open>x ** 3\<close> is the same number whether it is rounded once or formed by repeated
  multiplication.)
\<close>

theorem poly_eval_float_counterexample:
  "poly_eval_f64 (map f64_of_int [1, 2, 3, 4]) (f64_of_int 1234567) =
     Finite 1837571724031189 12 \<and>
   naive_sum_f64 (map f64_of_int [1, 2, 3, 4]) (f64_of_int 1234567) =
     Finite 7350286896124757 10"
  by code_simp

text \<open>
  C8, amended. For every non-empty polynomial \<open>P\<close> and every point \<open>x\<close>, all of Python
  integers (scalars of exact arithmetic), \<open>poly_eval P x\<close> is the naive sum of
  \<open>P[i] * x ^ i\<close> over all indices; in particular \<open>poly_eval [1, 2, 3, 4] 3 = 142\<close>.
\<close>

theorem poly_eval_naive_sum:
  assumes "P \<noteq> []"
  shows "poly_eval P x = (\<Sum>i<length P. P ! i * x ^ i) \<and>
         poly_eval [1, 2, 3, 4] (3 :: int) = 142"
  by (simp add: poly_eval_sum lessThan_Suc)

theorem poly_eval_naive_sum_witness:
  "[5, 0, 2 :: int] \<noteq> [] \<and> poly_eval [5, 0, 2] (3 :: int) = 5 * 3 ^ 0 + 0 * 3 ^ 1 + 2 * 3 ^ 2 \<and>
     poly_eval [1, 2, 3, 4] (3 :: int) = 142"
proof -
  have ne: "[5, 0, 2 :: int] \<noteq> []"
    by simp
  from poly_eval_naive_sum [OF ne, of 3] ne show ?thesis
    by (simp add: lessThan_Suc)
qed

text \<open>
  C10. For every point \<open>x\<close>, \<open>poly_eval [] x\<close> returns \<open>0\<close>: the accumulator starts
  at \<open>0\<close> and the loop body never runs. The function has no failing branch.
\<close>

theorem poly_eval_empty: "poly_eval [] x = 0"
  by (simp add: poly_eval_def)

section \<open>The generator\<close>

lemma chebyshev_loop_snoc:
  "chebyshev_loop polynomials (is @ [i]) =
     chebyshev_loop polynomials is @ [next_polynomial (chebyshev_loop polynomials is)]"
  by (simp add: chebyshev_loop_def)

lemma length_chebyshev_loop:
  "length (chebyshev_loop polynomials is) = length polynomials + length is"
  by (induction "is" rule: rev_induct) (simp_all add: chebyshev_loop_snoc, simp add: chebyshev_loop_def)

text \<open>
  Before every run of the loop body the list holds at least two polynomials, so the
  subscripts \<open>-1\<close> and \<open>-2\<close> are in range: the state before run \<open>n\<close> is the loop over
  the first \<open>n\<close> values of the loop variable.
\<close>

lemma chebyshev_loop_subscripts_in_range:
  assumes "2 \<le> length polynomials"
  shows "2 \<le> length (chebyshev_loop polynomials (take n is))"
  using assms by (simp add: length_chebyshev_loop)

lemma generate_chebyshev_polynomials_Suc:
  assumes "2 \<le> N"
  shows "generate_chebyshev_polynomials (N + 1) =
           generate_chebyshev_polynomials N @ [next_polynomial (generate_chebyshev_polynomials N)]"
proof (cases "N = 2")
  case True
  then show ?thesis
    by (simp add: generate_chebyshev_polynomials_def chebyshev_loop_def)
next
  case False
  with assms have "2 < N" by simp
  then have "[2..N] = [2..N - 1] @ [N]"
    by (simp add: upto_rec2)
  with \<open>2 < N\<close> show ?thesis
    by (simp add: generate_chebyshev_polynomials_def Let_def chebyshev_loop_snoc)
qed

lemma length_generate_chebyshev_polynomials:
  "length (generate_chebyshev_polynomials N) = nat N"
  by (auto simp add: generate_chebyshev_polynomials_def Let_def length_chebyshev_loop)

text \<open>
  C4. For every count \<open>N \<ge> 0\<close>, \<open>generate_chebyshev_polynomials N\<close> is a list of
  exactly \<open>N\<close> polynomials, and its \<open>k\<close>-th element, for every \<open>k < N\<close>, is the
  \<open>k\<close>-th element of \<open>generate_chebyshev_polynomials (N + 1)\<close>.
\<close>

theorem generate_chebyshev_polynomials_prefix:
  assumes "0 \<le> N"
  shows "length (generate_chebyshev_polynomials N :: 'a::comm_ring_1 list list) = nat N \<and>
         (\<forall>k<nat N. (generate_chebyshev_polynomials N :: 'a list list) ! k =
                      generate_chebyshev_polynomials (N + 1) ! k)"
proof (intro conjI allI impI)
  show "length (generate_chebyshev_polynomials N :: 'a list list) = nat N"
    by (rule length_generate_chebyshev_polynomials)
next
  fix k
  assume k: "k < nat N"
  show "(generate_chebyshev_polynomials N :: 'a list list) ! k =
          generate_chebyshev_polynomials (N + 1) ! k"
  proof (cases "2 \<le> N")
    case True
    with k show ?thesis
      by (simp add: generate_chebyshev_polynomials_Suc nth_append
            length_generate_chebyshev_polynomials)
  next
    case False
    with k assms have "N = 1" "k = 0" by auto
    then show ?thesis
      by (simp add: generate_chebyshev_polynomials_def)
  qed
qed

theorem generate_chebyshev_polynomials_prefix_witness:
  "(0::int) \<le> 3 \<and> length (generate_chebyshev_polynomials 3 :: int list list) = 3 \<and>
     (generate_chebyshev_polynomials 3 :: int list list) ! 2 = [- 1, 0, 4] \<and>
     (generate_chebyshev_polynomials 4 :: int list list) ! 2 = [- 1, 0, 4]"
proof -
  have le: "(0::int) \<le> 3" by simp
  have g: "(generate_chebyshev_polynomials 3 :: int list list) ! 2 = [- 1, 0, 4]"
    by (simp add: generate_chebyshev_polynomials_def chebyshev_loop_def next_polynomial_def)
  from generate_chebyshev_polynomials_prefix [OF le, where 'a = int] g show ?thesis
    by simp
qed

text \<open>
  C5. \<open>generate_chebyshev_polynomials 5\<close> is exactly the list of \<open>[1]\<close>, \<open>[0, 2]\<close>,
  \<open>[-1, 0, 4]\<close>, \<open>[0, -4, 0, 8]\<close> and \<open>[1, 0, -12, 0, 16]\<close>: the two seeds, then
  each polynomial from the two before it.
\<close>

theorem generate_chebyshev_polynomials_5:
  "generate_chebyshev_polynomials 5 =
     [[1], [0, 2], [- 1, 0, 4], [0, - 4, 0, 8], [1, 0, - 12, 0, 16]]"
  by (simp add: generate_chebyshev_polynomials_def chebyshev_loop_def next_polynomial_def)

text \<open>
  The boundary cases that hold: no polynomial for the count \<open>0\<close>, the seed \<open>[1]\<close> alone
  for the count \<open>1\<close>, and on one coefficient \<open>clenshaw_eval\<close> returns \<open>T\<^sub>0(x) * c\<^sub>0\<close>.
\<close>

lemma generate_chebyshev_polynomials_0_1:
  "generate_chebyshev_polynomials 0 = []"
  "generate_chebyshev_polynomials 1 = [[1]]"
  by (simp_all add: generate_chebyshev_polynomials_def)

lemma clenshaw_eval_single:
  "clenshaw_eval [c] x basis_0 basis_1 alpha beta = Inr (poly_eval basis_0 x * c)"
  by (simp add: clenshaw_eval_def)

lemma clenshaw_eval_f64_Nil:
  "clenshaw_eval_f64 [] x basis_0 basis_1 alpha beta = Inl IndexError"
  by (simp add: clenshaw_eval_f64_def)

text \<open>
  C3. \<open>generate_chebyshev_polynomials 0\<close> is empty, \<open>generate_chebyshev_polynomials 1\<close> is
  \<open>[[1]]\<close>, and \<open>clenshaw_eval\<close> completes without an indexing error on a coefficient
  list that is empty or has one element. The code fails the last part: its docstring
  promises \<open>f(value)\<close>, the sum of \<open>c\<^sub>k * T\<^sub>k(value)\<close>, which is \<open>0\<close> for no coefficients,
  and \<open>poly_eval\<close> returns \<open>0\<close> on \<open>[]\<close>, but the unguarded subscript
  \<open>coefficients[0]\<close> of the return statement raises \<open>IndexError\<close> on the empty list,
  here at \<open>clenshaw_eval([], 3, [1], [0, 1], [0, 1], [0])\<close>.
\<close>

theorem clenshaw_eval_empty_index_error:
  "clenshaw_eval ([] :: int list) 3 [1] [0, 1] [0, 1] [0] = Inl IndexError"
  by (simp add: clenshaw_eval_def)

section \<open>Linear combinations\<close>

lemma longest_Nil: "longest [] = 0"
  by (simp add: longest_def)

lemma longest_Cons: "longest (it # its) = max (length it) (longest its)"
  by (simp add: longest_def)

lemma longest_eq_0: "longest its = 0 \<longleftrightarrow> list_all (\<lambda>it. it = []) its"
  by (induction its) (auto simp add: longest_Nil longest_Cons)

lemma longest_map_tl: "longest (map tl its) = longest its - 1"
  by (induction its) (auto simp add: longest_Nil longest_Cons)

lemma length_le_longest: "it \<in> set its \<Longrightarrow> length it \<le> longest its"
  by (induction its) (auto simp add: longest_Cons)

lemma length_zip_longest: "length (zip_longest fillvalue its) = longest its"
proof (induction fillvalue its rule: zip_longest.induct)
  case (1 fillvalue iterables)
  show ?case
  proof (cases "list_all (\<lambda>it. it = []) iterables")
    case True
    then show ?thesis
      by (simp add: zip_longest.simps [of fillvalue iterables] longest_eq_0)
  next
    case False
    then have "longest iterables \<noteq> 0"
      by (simp add: longest_eq_0)
    with False "1.IH" show ?thesis
      by (simp add: zip_longest.simps [of fillvalue iterables] longest_map_tl)
  qed
qed

lemma nth_zip_longest:
  "j < longest its \<Longrightarrow>
     zip_longest fillvalue its ! j =
       map (\<lambda>it. if j < length it then it ! j else fillvalue) its"
proof (induction fillvalue its arbitrary: j rule: zip_longest.induct)
  case (1 fillvalue iterables)
  from "1.prems" have ne: "\<not> list_all (\<lambda>it. it = []) iterables"
    by (auto simp add: longest_eq_0 [symmetric])
  show ?case
  proof (cases j)
    case 0
    have "(case it of [] \<Rightarrow> fillvalue | v # _ \<Rightarrow> v) =
            (if 0 < length it then it ! 0 else fillvalue)" for it :: "'a list"
      by (cases it) simp_all
    with ne 0 show ?thesis
      by (simp add: zip_longest.simps [of fillvalue iterables])
  next
    case (Suc i)
    with "1.prems" have "i < longest (map tl iterables)"
      by (simp add: longest_map_tl)
    with ne have "zip_longest fillvalue (map tl iterables) ! i =
        map (\<lambda>it. if i < length it then it ! i else fillvalue) (map tl iterables)"
      by (rule "1.IH")
    moreover have "(if i < length (tl it) then tl it ! i else fillvalue) =
        (if Suc i < length it then it ! Suc i else fillvalue)" for it :: "'a list"
      by (cases it) simp_all
    ultimately show ?thesis
      using ne Suc by (simp add: zip_longest.simps [of fillvalue iterables] comp_def)
  qed
qed

lemma sum_list_zip_mult:
  assumes "length ws = length row"
  shows "sum_list (map (\<lambda>(c, x). c * x) (zip ws row)) =
           (\<Sum>i<length ws. ws ! i * (row ! i :: 'a::comm_ring_1))"
proof -
  have "sum_list (map (\<lambda>(c, x). c * x) (zip ws row)) =
          (\<Sum>i = 0..<length ws. map (\<lambda>(c, x). c * x) (zip ws row) ! i)"
    using assms by (simp add: sum_list_sum_nth)
  also have "\<dots> = (\<Sum>i = 0..<length ws. ws ! i * row ! i)"
    using assms by (intro sum.cong) simp_all
  finally show ?thesis
    by (simp add: atLeast0LessThan)
qed

lemma linear_combination_Inr:
  assumes "length weights = length polys"
  shows "linear_combination polys weights =
           Inr (map (\<lambda>j. \<Sum>i<length polys. weights ! i * coeff (polys ! i) j)
                  [0..<longest polys])"
proof -
  let ?rows = "zip_longest 0 polys"
  let ?f = "\<lambda>coeffs. py_sum (map (\<lambda>(c, x). c * x) (zip weights coeffs))"
  have "map ?f ?rows = map (\<lambda>j. \<Sum>i<length polys. weights ! i * coeff (polys ! i) j)
                         [0..<longest polys]"
  proof (rule nth_equalityI)
    show "length (map ?f ?rows) =
            length (map (\<lambda>j. \<Sum>i<length polys. weights ! i * coeff (polys ! i) j)
                      [0..<longest polys])"
      by (simp add: length_zip_longest)
  next
    fix j
    assume "j < length (map ?f ?rows)"
    then have j: "j < longest polys"
      by (simp add: length_zip_longest)
    let ?row = "map (\<lambda>it. coeff it j) polys"
    have row: "?rows ! j = ?row"
      using j by (simp add: nth_zip_longest coeff_def)
    have "?f ?row = (\<Sum>i<length weights. weights ! i * ?row ! i)"
      using assms by (simp add: py_sum_sum_list sum_list_zip_mult)
    also have "\<dots> = (\<Sum>i<length polys. weights ! i * coeff (polys ! i) j)"
      using assms by (intro sum.cong) simp_all
    finally show "map ?f ?rows ! j =
        map (\<lambda>j. \<Sum>i<length polys. weights ! i * coeff (polys ! i) j) [0..<longest polys] ! j"
      using j row by (simp add: length_zip_longest)
  qed
  with assms show ?thesis
    by (simp add: linear_combination_def)
qed

lemma coeff_beyond_longest:
  assumes "longest polys \<le> j" and "i < length polys"
  shows "coeff (polys ! i) j = 0"
proof -
  from assms(2) have "length (polys ! i) \<le> longest polys"
    by (intro length_le_longest) simp
  with assms(1) show ?thesis
    by (simp add: coeff_def)
qed

text \<open>
  C7. For every list of polynomials and every list of weights of the same length,
  \<open>linear_combination\<close> returns one polynomial, as long as the longest input, whose
  coefficient at every degree \<open>j\<close> is the sum over \<open>i\<close> of
  \<open>weights[i] * polys[i][j]\<close>, a polynomial shorter than \<open>j + 1\<close> counting for \<open>0\<close>
  there.
\<close>

theorem linear_combination_coefficients:
  assumes "length weights = length polys"
  shows "\<exists>r. linear_combination polys weights = Inr r \<and> length r = longest polys \<and>
             (\<forall>j. coeff r j = (\<Sum>i<length polys. weights ! i * coeff (polys ! i) j))"
proof -
  let ?r = "map (\<lambda>j. \<Sum>i<length polys. weights ! i * coeff (polys ! i) j) [0..<longest polys]"
  have "coeff ?r j = (\<Sum>i<length polys. weights ! i * coeff (polys ! i) j)" for j
  proof (cases "j < longest polys")
    case True
    then have "coeff ?r j = ?r ! j"
      by (simp add: coeff_def)
    also from True have "\<dots> = (\<Sum>i<length polys. weights ! i * coeff (polys ! i) j)"
      by simp
    finally show ?thesis .
  next
    case False
    then have "(\<Sum>i<length polys. weights ! i * coeff (polys ! i) j) = 0"
      by (intro sum.neutral) (simp add: coeff_beyond_longest)
    with False show ?thesis
      by (simp add: coeff_def)
  qed
  with linear_combination_Inr [OF assms] show ?thesis
    by simp
qed

theorem linear_combination_coefficients_witness:
  "length [1, 2, 3 :: int] = length [[1], [0, 2], [- 1, 0, 4 :: int]] \<and>
   (\<exists>r. linear_combination [[1], [0, 2], [- 1, 0, 4]] [1, 2, 3 :: int] = Inr r \<and>
        length r = 3 \<and> coeff r 0 = - 2 \<and> coeff r 1 = 4 \<and> coeff r 2 = 12 \<and> coeff r 3 = 0)"
proof -
  have len: "length [1, 2, 3 :: int] = length [[1], [0, 2], [- 1, 0, 4 :: int]]"
    by simp
  from linear_combination_coefficients [OF len] obtain r where
    r: "linear_combination [[1], [0, 2], [- 1, 0, 4]] [1, 2, 3 :: int] = Inr r"
       "length r = longest [[1], [0, 2], [- 1, 0, 4 :: int]]"
       "\<And>j. coeff r j =
          (\<Sum>i<length [[1], [0, 2], [- 1, 0, 4 :: int]].
             [1, 2, 3] ! i * coeff ([[1], [0, 2], [- 1, 0, 4]] ! i) j)"
    by blast
  have "length r = 3"
    using r(2) by (simp add: longest_def)
  moreover have "coeff r 0 = - 2" "coeff r 1 = 4" "coeff r 2 = 12" "coeff r 3 = 0"
    by (simp_all only: r(3)) (simp_all add: coeff_def lessThan_Suc)
  ultimately show ?thesis
    using r(1) len by simp
qed

text \<open>
  C9. \<open>linear_combination\<close> fails, with the assertion error that reports the invalid
  arguments, if and only if the two lists differ in length, and returns a polynomial if
  and only if they have the same length.
\<close>

theorem linear_combination_error_iff:
  "(linear_combination polys weights = Inl AssertionError \<longleftrightarrow> length weights \<noteq> length polys) \<and>
   ((\<exists>r. linear_combination polys weights = Inr r) \<longleftrightarrow> length weights = length polys)"
  by (simp add: linear_combination_def)

theorem linear_combination_error_iff_witness:
  "linear_combination [[1], [0, 2]] [5 :: int] = Inl AssertionError \<and>
   linear_combination [[1], [0, 2]] [5, 7 :: int] = Inr [5, 14]"
proof -
  have "linear_combination [[1], [0, 2]] [5 :: int] = Inl AssertionError"
    using linear_combination_error_iff [of "[[1], [0, 2]]" "[5 :: int]"] by simp
  moreover have "linear_combination [[1], [0, 2]] [5, 7 :: int] = Inr [5, 14]"
    by (simp add: linear_combination_def py_sum_def zip_longest.simps)
  ultimately show ?thesis ..
qed

section \<open>The Chebyshev series, evaluated two ways\<close>

lemma basis_value_unfold:
  assumes "2 \<le> k"
  shows "basis_value a b u v k =
           a * basis_value a b u v (k - 1) + b * basis_value a b u v (k - 2)"
proof -
  from assms obtain d where "k = Suc (Suc d)"
    by (metis Suc_le_D numeral_2_eq_2 Suc_le_mono)
  then show ?thesis
    by simp
qed

lemma poly_eval_zip_longest2:
  "f = 0 \<Longrightarrow>
     poly_eval (map (\<lambda>(x, y). 2 * x - y) (zip_longest2 f xs ys)) v =
       2 * poly_eval xs v - poly_eval ys v"
  by (induction f xs ys rule: zip_longest2.induct)
     (simp_all add: poly_eval_Nil poly_eval_Cons, simp_all add: algebra_simps)

lemma poly_eval_next_polynomial:
  "poly_eval (next_polynomial ps) v =
     2 * v * poly_eval (ps ! (length ps - 1)) v - poly_eval (ps ! (length ps - 2)) v"
  by (simp add: next_polynomial_def poly_eval_zip_longest2 poly_eval_Cons)

lemma poly_eval_generate_chebyshev_polynomials:
  "k < m \<Longrightarrow>
     poly_eval (generate_chebyshev_polynomials (int m) ! k) x = basis_value (2 * x) (- 1) 1 (2 * x) k"
proof (induction m arbitrary: k)
  case 0
  then show ?case by simp
next
  case (Suc m)
  show ?case
  proof (cases "2 \<le> m")
    case False
    with Suc.prems have "m = 0 \<and> k = 0 \<or> m = 1 \<and> (k = 0 \<or> k = 1)"
      by auto
    then show ?thesis
      by (auto simp add: generate_chebyshev_polynomials_def poly_eval_def)
  next
    case True
    let ?G = "generate_chebyshev_polynomials (int m) :: 'a list list"
    have len: "length ?G = m"
      by (simp add: length_generate_chebyshev_polynomials)
    from True have G: "generate_chebyshev_polynomials (1 + int m) = ?G @ [next_polynomial ?G]"
      using generate_chebyshev_polynomials_Suc [of "int m"] by (simp add: add.commute)
    show ?thesis
    proof (cases "k < m")
      case True
      then show ?thesis
        by (simp add: G nth_append len Suc.IH)
    next
      case False
      with Suc.prems have k: "k = m" by simp
      have "poly_eval (next_polynomial ?G) x =
              2 * x * poly_eval (?G ! (m - 1)) x - poly_eval (?G ! (m - 2)) x"
        by (simp only: poly_eval_next_polynomial len)
      also have "\<dots> = 2 * x * basis_value (2 * x) (- 1) 1 (2 * x) (m - 1)
                        - basis_value (2 * x) (- 1) 1 (2 * x) (m - 2)"
        using \<open>2 \<le> m\<close> by (simp add: Suc.IH)
      also have "\<dots> = basis_value (2 * x) (- 1) 1 (2 * x) m"
        using \<open>2 \<le> m\<close> by (simp add: basis_value_unfold [of m])
      finally show ?thesis
        by (simp add: G k nth_append len)
    qed
  qed
qed

lemma poly_eval_coeff_sum:
  assumes "length p \<le> L"
  shows "poly_eval p x = (\<Sum>j<L. coeff p j * x ^ j)"
proof -
  have "(\<Sum>j<L. coeff p j * x ^ j) = (\<Sum>j<length p. coeff p j * x ^ j)"
    using assms by (intro sum.mono_neutral_right) (auto simp add: coeff_def)
  also have "\<dots> = (\<Sum>j<length p. p ! j * x ^ j)"
    by (intro sum.cong) (simp_all add: coeff_def)
  finally show ?thesis
    by (simp add: poly_eval_sum)
qed

lemma poly_eval_linear_combination:
  assumes "length weights = length polys"
  shows "\<exists>p. linear_combination polys weights = Inr p \<and>
             poly_eval p x = (\<Sum>i<length polys. weights ! i * poly_eval (polys ! i) x)"
proof -
  let ?L = "longest polys"
  let ?p = "map (\<lambda>j. \<Sum>i<length polys. weights ! i * coeff (polys ! i) j) [0..<?L]"
  have "poly_eval ?p x = (\<Sum>j<?L. ?p ! j * x ^ j)"
    by (simp add: poly_eval_sum)
  also have "\<dots> = (\<Sum>j<?L. \<Sum>i<length polys. weights ! i * (coeff (polys ! i) j * x ^ j))"
    by (intro sum.cong) (simp_all add: sum_distrib_right mult.assoc)
  also have "\<dots> = (\<Sum>i<length polys. \<Sum>j<?L. weights ! i * (coeff (polys ! i) j * x ^ j))"
    by (rule sum.swap)
  also have "\<dots> = (\<Sum>i<length polys. weights ! i * poly_eval (polys ! i) x)"
  proof (intro sum.cong refl)
    fix i
    assume "i \<in> {..<length polys}"
    then have "length (polys ! i) \<le> ?L"
      by (intro length_le_longest) simp
    then show "(\<Sum>j<?L. weights ! i * (coeff (polys ! i) j * x ^ j)) =
                 weights ! i * poly_eval (polys ! i) x"
      by (simp add: poly_eval_coeff_sum [of _ ?L] sum_distrib_left)
  qed
  finally show ?thesis
    using linear_combination_Inr [OF assms] by simp
qed

lemma cheb_eval_Cons:
  "cheb_eval (c # cs) x =
     Inr (\<Sum>k<length (c # cs). (c # cs) ! k * basis_value (2 * x) (- 1) 1 (2 * x) k)"
proof -
  have vals: "poly_eval [0, 2] x = 2 * x" "poly_eval [- 1] x = - 1" "poly_eval [1] x = 1"
    by (simp_all add: poly_eval_def)
  have basis: "generate_chebyshev_polynomials 2 = [[1], [0, 2 :: 'a]]"
    by (simp add: generate_chebyshev_polynomials_def)
  show ?thesis
    by (simp only: cheb_eval_def Let_def basis nth_Cons_0 nth_Cons_Suc One_nat_def
          clenshaw_eval_Cons vals)
qed

text \<open>
  C2 says that for every non-empty coefficient list \<open>c\<close> and every scalar \<open>x\<close> the two
  paths agree, exactly for integer-valued inputs. On integer-valued floats they do not:
  for \<open>c = [1.0, 1.0, 1.0, 1.0]\<close> at \<open>x = 12345679.0\<close>, \<open>cheb_eval\<close> returns
  \<open>1794506543847831 * 2 ^ 23 = 15053411949774265909248\<close>, while
  \<open>linear_combination\<close> on the four generated polynomials returns
  \<open>[0.0, -2.0, 4.0, 8.0]\<close> and \<open>poly_eval\<close> of that at \<open>x\<close> is
  \<open>7178026175391325 * 2 ^ 21 = 15053411949774268006400\<close>.
\<close>

theorem cheb_eval_float_counterexample:
  "cheb_eval_f64 (map f64_of_int [1, 1, 1, 1]) (f64_of_int 12345679) =
     Inr (Finite 1794506543847831 23) \<and>
   linear_combination_f64
     (map (map f64_of_int) (generate_chebyshev_polynomials (int (length [1, 1, 1, 1 :: int]))))
     (map f64_of_int [1, 1, 1, 1]) =
     Inr [Finite 0 0, Finite (- 1) 1, Finite 1 2, Finite 1 3] \<and>
   poly_eval_f64 [Finite 0 0, Finite (- 1) 1, Finite 1 2, Finite 1 3] (f64_of_int 12345679) =
     Finite 7178026175391325 21"
  by code_simp

text \<open>
  C2, amended. For every non-empty coefficient list \<open>c\<close> and every point \<open>x\<close>, all of
  Python integers (scalars of exact arithmetic), \<open>cheb_eval c x\<close> is the value at \<open>x\<close> of
  the polynomial that \<open>linear_combination\<close> builds from the first \<open>len(c)\<close> generated
  polynomials weighted by \<open>c\<close>: the Clenshaw path and the expand-then-evaluate path agree
  exactly.
\<close>

theorem cheb_eval_expand_then_evaluate:
  assumes "c \<noteq> []"
  shows "\<exists>p. linear_combination (generate_chebyshev_polynomials (int (length c))) c = Inr p \<and>
             cheb_eval c x = Inr (poly_eval p x)"
proof -
  let ?G = "generate_chebyshev_polynomials (int (length c)) :: 'a list list"
  have len: "length c = length ?G"
    by (simp add: length_generate_chebyshev_polynomials)
  from poly_eval_linear_combination [OF len, of x] obtain p where
    p: "linear_combination ?G c = Inr p"
       "poly_eval p x = (\<Sum>i<length ?G. c ! i * poly_eval (?G ! i) x)"
    by blast
  have "poly_eval p x = (\<Sum>i<length c. c ! i * basis_value (2 * x) (- 1) 1 (2 * x) i)"
    unfolding p(2) len [symmetric]
    by (intro sum.cong refl) (simp add: poly_eval_generate_chebyshev_polynomials)
  moreover from assms obtain c0 cs where "c = c0 # cs"
    by (cases c) auto
  ultimately have "cheb_eval c x = Inr (poly_eval p x)"
    by (simp only: cheb_eval_Cons)
  with p(1) show ?thesis
    by blast
qed

theorem cheb_eval_expand_then_evaluate_witness:
  "[1, 2, 3 :: int] \<noteq> [] \<and>
   linear_combination (generate_chebyshev_polynomials (int (length [1, 2, 3 :: int]))) [1, 2, 3 :: int]
     = Inr [- 2, 4, 12] \<and>
   cheb_eval [1, 2, 3] (4 :: int) = Inr (poly_eval [- 2, 4, 12] 4) \<and>
   poly_eval [- 2, 4, 12] (4 :: int) = 206"
proof -
  have ne: "[1, 2, 3 :: int] \<noteq> []"
    by simp
  have lc: "linear_combination (generate_chebyshev_polynomials (int (length [1, 2, 3 :: int])))
              [1, 2, 3 :: int] = Inr [- 2, 4, 12]"
    by (simp add: generate_chebyshev_polynomials_def chebyshev_loop_def next_polynomial_def
          linear_combination_def py_sum_def zip_longest.simps)
  from cheb_eval_expand_then_evaluate [OF ne, of 4] lc
  have "cheb_eval [1, 2, 3] (4 :: int) = Inr (poly_eval [- 2, 4, 12] 4)"
    by simp
  moreover have "poly_eval [- 2, 4, 12] (4 :: int) = 206"
    by (simp add: poly_eval_def)
  ultimately show ?thesis
    using ne lc by simp
qed

end
